theory Spec2Isabelle
  imports Main "HOL-Library.Word" "HOL-Library.Log_Nat"
begin

section \<open>The LRC lyrics parser of \<^verbatim>\<open>src/js/lyrics-parser.js\<close>\<close>

text \<open>
  The class \<^verbatim>\<open>LyricsParser\<close> keeps three fields (\<^verbatim>\<open>lyrics\<close>, \<^verbatim>\<open>metadata\<close>,
  \<^verbatim>\<open>currentIndex\<close>); its methods are embedded as functions that take the object's
  state and return the new one.  JavaScript strings are sequences of 16-bit code units,
  numbers are IEEE binary64 values; both are written out below.
\<close>

subsection \<open>Strings\<close>

type_synonym jschar = "16 word"
type_synonym jsstring = "jschar list"

text \<open>An ASCII literal as a JavaScript string.\<close>

definition js :: "string \<Rightarrow> jsstring" where
  "js s = map of_char s"

text \<open>
  \<^verbatim>\<open>LineTerminator\<close> of ECMAScript: LF, CR, U+2028, U+2029.  The regular expression
  atom \<^verbatim>\<open>.\<close> (without the \<^verbatim>\<open>s\<close> flag) matches every code unit but these.
\<close>

definition isLineTerminator :: "jschar \<Rightarrow> bool" where
  "isLineTerminator c = (c = 0x000A \<or> c = 0x000D \<or> c = 0x2028 \<or> c = 0x2029)"

text \<open>
  The code units \<^verbatim>\<open>String.prototype.trim\<close> strips: \<^verbatim>\<open>WhiteSpace\<close> (TAB, VT, FF,
  the BOM U+FEFF and the space separators of Unicode) and \<^verbatim>\<open>LineTerminator\<close>.
\<close>

definition isWhiteSpace :: "jschar \<Rightarrow> bool" where
  "isWhiteSpace c =
     (c = 0x0009 \<or> c = 0x000B \<or> c = 0x000C \<or> c = 0x0020 \<or> c = 0x00A0 \<or> c = 0x1680 \<or>
      (0x2000 \<le> c \<and> c \<le> 0x200A) \<or> c = 0x202F \<or> c = 0x205F \<or> c = 0x3000 \<or> c = 0xFEFF \<or>
      isLineTerminator c)"

text \<open>\<^verbatim>\<open>\d\<close> is \<^verbatim>\<open>[0-9]\<close> and \<^verbatim>\<open>\w\<close> is \<^verbatim>\<open>[A-Za-z0-9_]\<close> (no \<^verbatim>\<open>i\<close> or \<^verbatim>\<open>u\<close> flag).\<close>

definition isDigit :: "jschar \<Rightarrow> bool" where
  "isDigit c = (0x30 \<le> c \<and> c \<le> 0x39)"

definition isWordChar :: "jschar \<Rightarrow> bool" where
  "isWordChar c =
     ((0x41 \<le> c \<and> c \<le> 0x5A) \<or> (0x61 \<le> c \<and> c \<le> 0x7A) \<or> isDigit c \<or> c = 0x5F)"

text \<open>\<^verbatim>\<open>s.trim()\<close>\<close>

definition trim :: "jsstring \<Rightarrow> jsstring" where
  "trim s = rev (dropWhile isWhiteSpace (rev (dropWhile isWhiteSpace s)))"

text \<open>
  \<^verbatim>\<open>s.split('\n')\<close>: the pieces between the line feeds; a string without a line feed
  (the empty one too) is one piece.
\<close>

fun split_newline :: "jsstring \<Rightarrow> jsstring list" where
  "split_newline [] = [[]]"
| "split_newline (c # cs) =
     (if c = 0x000A then [] # split_newline cs
      else (case split_newline cs of
              [] \<Rightarrow> [[c]]
            | piece # pieces \<Rightarrow> (c # piece) # pieces))"

subsection \<open>Numbers\<close>

text \<open>
  A finite JavaScript number is a rational; an arithmetic operation returns the exact
  result rounded to the nearest binary64 value, ties to even.  \<open>fl\<close> is that rounding:
  53 significant bits, with the fixed spacing \<open>2\<^sup>-\<^sup>1\<^sup>0\<^sup>7\<^sup>4\<close> of the subnormal range.
  Overflow to \<^verbatim>\<open>Infinity\<close> (magnitudes from \<open>2\<^sup>1\<^sup>0\<^sup>2\<^sup>4\<close> on) is outside this model; the
  parser's arithmetic stays below 6040.
\<close>

definition roundHalfEven :: "rat \<Rightarrow> int" where
  "roundHalfEven q =
     (let n = \<lfloor>q\<rfloor>; r = q - of_int n
      in if r < 1 / 2 then n else if 1 / 2 < r then n + 1
         else if even n then n else n + 1)"

text \<open>The binary exponent \<open>e\<close> of \<open>x \<noteq> 0\<close>: \<open>2\<^sup>e \<le> \<bar>x\<bar> < 2\<^sup>e\<^sup>+\<^sup>1\<close>.\<close>

definition exponent :: "rat \<Rightarrow> int" where
  "exponent x =
     (if 1 \<le> \<bar>x\<bar> then bitlen \<lfloor>\<bar>x\<bar>\<rfloor> - 1 else - bitlen (\<lceil>1 / \<bar>x\<bar>\<rceil> - 1))"

definition fl :: "rat \<Rightarrow> rat" where
  "fl x =
     (if x = 0 then 0
      else let ulp = 2 powi (max (exponent x) (- 1022) - 52)
           in of_int (roundHalfEven (x / ulp)) * ulp)"

definition fadd :: "rat \<Rightarrow> rat \<Rightarrow> rat" where
  "fadd a b = fl (a + b)"

definition fmul :: "rat \<Rightarrow> rat \<Rightarrow> rat" where
  "fmul a b = fl (a * b)"

definition fdiv :: "rat \<Rightarrow> rat \<Rightarrow> rat" where
  "fdiv a b = fl (a / b)"

text \<open>
  \<^verbatim>\<open>parseInt(s, 10)\<close> on a string that starts with a decimal digit: the value of the
  longest prefix of digits.  (Leading white space, a sign, and the result \<^verbatim>\<open>NaN\<close> for
  a string with no leading digit do not arise: the parser passes the \<^verbatim>\<open>\d{2}\<close> groups
  of a match.)
\<close>

definition digitValue :: "jschar \<Rightarrow> nat" where
  "digitValue c = unat c - 48"

definition parseInt :: "jsstring \<Rightarrow> nat" where
  "parseInt s = foldl (\<lambda>n c. n * 10 + digitValue c) 0 (takeWhile isDigit s)"

subsection \<open>The data\<close>

text \<open>
  One entry of \<^verbatim>\<open>this.lyrics\<close> is \<^verbatim>\<open>{time, text}\<close>; the object returned by
  \<^verbatim>\<open>getCurrentLyric\<close> has the same two fields and \<^verbatim>\<open>index\<close>, \<^verbatim>\<open>isNew\<close>.
\<close>

record lyric =
  time :: rat
  text' :: jsstring

record lyricData = lyric +
  index :: int
  isNew :: bool

record parser =
  lyrics :: "lyric list"
  metadata :: "jsstring \<rightharpoonup> jsstring"
  currentIndex :: int

text \<open>\<^verbatim>\<open>constructor()\<close>\<close>

definition constructor :: parser where
  "constructor = \<lparr>lyrics = [], metadata = Map.empty, currentIndex = - 1\<rparr>"

text \<open>\<^verbatim>\<open>clear()\<close>\<close>

definition clear :: "parser \<Rightarrow> parser" where
  "clear p = p\<lparr>lyrics := [], metadata := Map.empty, currentIndex := - 1\<rparr>"

text \<open>\<^verbatim>\<open>hasLyrics()\<close>\<close>

definition hasLyrics :: "parser \<Rightarrow> bool" where
  "hasLyrics p = (length (lyrics p) > 0)"

subsection \<open>Parsing\<close>

text \<open>
  \<^verbatim>\<open>min * 60 + sec + cs / 100\<close> on the three parsed integers, each operation rounded.
\<close>

definition parseTimeToSeconds :: "jsstring \<Rightarrow> jsstring \<Rightarrow> jsstring \<Rightarrow> rat" where
  "parseTimeToSeconds minutes seconds centiseconds =
     (let min = of_nat (parseInt minutes);
          sec = of_nat (parseInt seconds);
          cs = of_nat (parseInt centiseconds)
      in fadd (fadd (fmul min 60) sec) (fdiv cs 100))"

text \<open>
  \<^verbatim>\<open>trimmedLine.match(/^\[(\w+):(.+)\]$/)\<close>, giving the two groups.  \<^verbatim>\<open>\w+\<close> has to
  take the whole run of word characters after the bracket, since only a colon may follow
  it; \<^verbatim>\<open>.+\<close> has to take everything up to the last code unit, which must be the
  closing bracket.
\<close>

definition metadataMatch :: "jsstring \<Rightarrow> (jsstring \<times> jsstring) option" where
  "metadataMatch line =
     (case line of
        [] \<Rightarrow> None
      | c # rest \<Rightarrow>
          if c \<noteq> 0x5B then None
          else let key = takeWhile isWordChar rest in
            (case dropWhile isWordChar rest of
               [] \<Rightarrow> None
             | d # rest2 \<Rightarrow>
                 if key = [] \<or> d \<noteq> 0x3A \<or> rest2 = [] then None
                 else let val = butlast rest2 in
                   if last rest2 = 0x5D \<and> val \<noteq> [] \<and> list_all (\<lambda>ch. \<not> isLineTerminator ch) val
                   then Some (key, val) else None))"

text \<open>
  \<^verbatim>\<open>/\[(\d{2}):(\d{2})\.(\d{2})\](.*)$/\<close> tried at the start of \<open>s\<close>: the tag, then
  code units other than line terminators up to the end of the string.
\<close>

fun matchTimeAt :: "jsstring \<Rightarrow> (jsstring \<times> jsstring \<times> jsstring \<times> jsstring) option" where
  "matchTimeAt (b # m1 # m2 # c # s1 # s2 # d # c1 # c2 # e # rest) =
     (if b = 0x5B \<and> isDigit m1 \<and> isDigit m2 \<and> c = 0x3A \<and> isDigit s1 \<and> isDigit s2 \<and>
         d = 0x2E \<and> isDigit c1 \<and> isDigit c2 \<and> e = 0x5D \<and>
         list_all (\<lambda>ch. \<not> isLineTerminator ch) rest
      then Some ([m1, m2], [s1, s2], [c1, c2], rest) else None)"
| "matchTimeAt _ = None"

text \<open>
  \<^verbatim>\<open>trimmedLine.match(/\[(\d{2}):(\d{2})\.(\d{2})\](.*)$/)\<close>: the pattern has no
  \<^verbatim>\<open>^\<close>, so the match is the leftmost position at which it succeeds.
\<close>

fun timeMatches :: "jsstring \<Rightarrow> (jsstring \<times> jsstring \<times> jsstring \<times> jsstring) option" where
  "timeMatches [] = None"
| "timeMatches (c # cs) =
     (case matchTimeAt (c # cs) of
        Some groups \<Rightarrow> Some groups
      | None \<Rightarrow> timeMatches cs)"

text \<open>
  \<^verbatim>\<open>this.metadata[key] = v\<close> on the plain object \<^verbatim>\<open>{}\<close>: an own property is created
  or overwritten, but for the key \<^verbatim>\<open>__proto__\<close> the assignment reaches the setter of
  \<^verbatim>\<open>Object.prototype\<close>, which ignores a string.
\<close>

definition setProperty :: "(jsstring \<rightharpoonup> jsstring) \<Rightarrow> jsstring \<Rightarrow> jsstring \<Rightarrow> (jsstring \<rightharpoonup> jsstring)" where
  "setProperty obj key v = (if key = js ''__proto__'' then obj else obj(key \<mapsto> v))"

text \<open>The body of the loop over the lines in \<^verbatim>\<open>parseLRC\<close>.\<close>

definition parseLine :: "parser \<Rightarrow> jsstring \<Rightarrow> parser" where
  "parseLine p line =
     (let trimmedLine = trim line in
      if trimmedLine = [] then p
      else (case metadataMatch trimmedLine of
              Some (key, val) \<Rightarrow> p\<lparr>metadata := setProperty (metadata p) key (trim val)\<rparr>
            | None \<Rightarrow>
                (case timeMatches trimmedLine of
                   Some (minutes, seconds, centiseconds, txt) \<Rightarrow>
                     let timeInSeconds = parseTimeToSeconds minutes seconds centiseconds
                     in p\<lparr>lyrics := lyrics p @
                            [\<lparr>time = timeInSeconds,
                              text' = (if trim txt \<noteq> [] then trim txt else [])\<rparr>]\<rparr>
                 | None \<Rightarrow> p)))"

fun parseLines :: "parser \<Rightarrow> jsstring list \<Rightarrow> parser" where
  "parseLines p [] = p"
| "parseLines p (line # rest) = parseLines (parseLine p line) rest"

text \<open>
  \<^verbatim>\<open>(a, b) => a.time - b.time\<close>.  The difference of two finite binary64 values is zero
  only when they are equal and has the sign of the exact difference otherwise, and the
  sort reads only the sign: the exact difference stands for it.
\<close>

definition compareFn :: "lyric \<Rightarrow> lyric \<Rightarrow> rat" where
  "compareFn a b = time a - time b"

text \<open>
  \<^verbatim>\<open>Array.prototype.sort(comparefn)\<close>.  ECMAScript (2019 on) requires the sort to be
  stable; with a consistent comparator that fixes the result, computed here by inserting
  the elements one by one, each behind the elements that do not compare greater.
\<close>

fun insertSorted :: "('a \<Rightarrow> 'a \<Rightarrow> rat) \<Rightarrow> 'a \<Rightarrow> 'a list \<Rightarrow> 'a list" where
  "insertSorted cmp x [] = [x]"
| "insertSorted cmp x (y # ys) =
     (if 0 < cmp y x then x # y # ys else y # insertSorted cmp x ys)"

fun sortInto :: "('a \<Rightarrow> 'a \<Rightarrow> rat) \<Rightarrow> 'a list \<Rightarrow> 'a list \<Rightarrow> 'a list" where
  "sortInto cmp acc [] = acc"
| "sortInto cmp acc (x # xs) = sortInto cmp (insertSorted cmp x acc) xs"

definition arraySort :: "('a \<Rightarrow> 'a \<Rightarrow> rat) \<Rightarrow> 'a list \<Rightarrow> 'a list" where
  "arraySort cmp xs = sortInto cmp [] xs"

text \<open>
  \<^verbatim>\<open>parseLRC(lrcContent)\<close> for a string argument.  The guard
  \<^verbatim>\<open>!lrcContent || typeof lrcContent !== 'string'\<close> holds of the empty string alone;
  the method then returns before it touches the object.
\<close>

definition parseLRC :: "parser \<Rightarrow> jsstring \<Rightarrow> parser" where
  "parseLRC p lrcContent =
     (if lrcContent = [] then p
      else let p1 = p\<lparr>lyrics := [], metadata := Map.empty, currentIndex := - 1\<rparr>;
               p2 = parseLines p1 (split_newline lrcContent)
           in p2\<lparr>lyrics := arraySort compareFn (lyrics p2)\<rparr>)"

subsection \<open>The query\<close>

text \<open>
  The loop of \<^verbatim>\<open>getCurrentLyric\<close>: \<open>i\<close> is the loop variable, \<open>targetIndex\<close> the index
  found so far; the \<^verbatim>\<open>break\<close> leaves with it.
\<close>

function scanLyrics :: "lyric list \<Rightarrow> rat \<Rightarrow> nat \<Rightarrow> int \<Rightarrow> int" where
  "scanLyrics ls currentTime i targetIndex =
     (if i < length ls
      then (if time (ls ! i) \<le> currentTime
            then scanLyrics ls currentTime (i + 1) (int i)
            else targetIndex)
      else targetIndex)"
  by pat_completeness auto
termination
  by (relation "measure (\<lambda>(ls, t, i, k). length ls - i)") auto

text \<open>
  \<^verbatim>\<open>getCurrentLyric(currentTime)\<close> for a finite \<^verbatim>\<open>currentTime\<close> (the position of a media
  element): the returned object, or \<open>None\<close> for \<^verbatim>\<open>null\<close>, and the state afterwards.
\<close>

definition getCurrentLyric :: "parser \<Rightarrow> rat \<Rightarrow> lyricData option \<times> parser" where
  "getCurrentLyric p currentTime =
     (if length (lyrics p) = 0 then (None, p)
      else let targetIndex = scanLyrics (lyrics p) currentTime 0 (- 1) in
        if targetIndex \<ge> 0
        then let currentLyric = lyrics p ! nat targetIndex;
                 indexChanged = (targetIndex \<noteq> currentIndex p)
             in (Some \<lparr>time = time currentLyric, text' = text' currentLyric,
                        index = targetIndex, isNew = indexChanged\<rparr>,
                 p\<lparr>currentIndex := targetIndex\<rparr>)
        else (None, p))"

subsection \<open>Loading\<close>

text \<open>
  What \<^verbatim>\<open>fetch(url)\<close> and \<^verbatim>\<open>response.text()\<close> can do: the fetch is rejected (a network
  error), or it gives a response with its \<^verbatim>\<open>ok\<close> flag, whose body is then read
  (\<open>Some\<close>) or fails to be read (\<open>None\<close>).
\<close>

datatype fetchOutcome = Rejected | Response bool "jsstring option"

text \<open>
  \<^verbatim>\<open>loadFromURL(url)\<close> once its promise settles: the value it resolves to and the state.
  Every \<^verbatim>\<open>throw\<close> and rejection inside the \<^verbatim>\<open>try\<close> block ends in the \<^verbatim>\<open>catch\<close>.
\<close>

definition loadFromURL :: "parser \<Rightarrow> fetchOutcome \<Rightarrow> bool \<times> parser" where
  "loadFromURL p outcome =
     (case outcome of
        Rejected \<Rightarrow> (False, clear p)
      | Response ok body \<Rightarrow>
          if \<not> ok then (False, clear p)
          else (case body of
                  None \<Rightarrow> (False, clear p)
                | Some lrcContent \<Rightarrow>
                    let p' = parseLRC p lrcContent in (hasLyrics p', p')))"

text \<open>
  The states an object can be in: fresh from the constructor, or after any call of a
  method that changes it.
\<close>

inductive reachable :: "parser \<Rightarrow> bool" where
  reach_new: "reachable constructor"
| reach_parse: "reachable p \<Longrightarrow> reachable (parseLRC p lrcContent)"
| reach_query: "reachable p \<Longrightarrow> reachable (snd (getCurrentLyric p currentTime))"
| reach_clear: "reachable p \<Longrightarrow> reachable (clear p)"
| reach_load: "reachable p \<Longrightarrow> reachable (snd (loadFromURL p outcome))"

subsection \<open>Notions used in the statements\<close>

text \<open>
  The number of leading entries of the list whose time is at most \<open>t\<close>: where the
  loop of the query stops.
\<close>

definition prefixLen :: "lyric list \<Rightarrow> rat \<Rightarrow> nat" where
  "prefixLen ls t = length (takeWhile (\<lambda>l. time l \<le> t) ls)"

text \<open>What a returned object says about the match, the flag \<^verbatim>\<open>isNew\<close> left out.\<close>

definition matchOf :: "lyricData \<Rightarrow> jsstring \<times> rat \<times> int" where
  "matchOf r = (text' r, time r, index r)"

section \<open>Properties\<close>

subsection \<open>The query loop\<close>

declare scanLyrics.simps [simp del]

lemma scanLyrics_takeWhile:
  "i \<le> length ls \<Longrightarrow>
   scanLyrics ls t i k =
     (if takeWhile (\<lambda>l. time l \<le> t) (drop i ls) = [] then k
      else int i + int (length (takeWhile (\<lambda>l. time l \<le> t) (drop i ls))) - 1)"
proof (induction ls t i k rule: scanLyrics.induct)
  case (1 ls t i k)
  show ?case
  proof (cases "i < length ls")
    case False
    then show ?thesis by (subst scanLyrics.simps) simp
  next
    case True
    then have d: "drop i ls = ls ! i # drop (Suc i) ls"
      by (simp add: Cons_nth_drop_Suc)
    show ?thesis
    proof (cases "time (ls ! i) \<le> t")
      case False
      with True d show ?thesis by (subst scanLyrics.simps) simp
    next
      case le: True
      from True have "Suc i \<le> length ls" by simp
      with "1.IH" True le
      have "scanLyrics ls t (i + 1) (int i) =
        (if takeWhile (\<lambda>l. time l \<le> t) (drop (i + 1) ls) = [] then int i
         else int (i + 1) + int (length (takeWhile (\<lambda>l. time l \<le> t) (drop (i + 1) ls))) - 1)"
        by simp
      with True le d show ?thesis by (subst scanLyrics.simps) simp
    qed
  qed
qed

lemma scanLyrics_start:
  "scanLyrics ls t 0 (- 1) = int (length (takeWhile (\<lambda>l. time l \<le> t) ls)) - 1"
  using scanLyrics_takeWhile [of 0 ls t "- 1"] by simp

lemma sorted_takeWhile_le:
  "sorted (map time ls) \<Longrightarrow> j < length ls \<Longrightarrow> time (ls ! j) \<le> t \<Longrightarrow>
   j < length (takeWhile (\<lambda>l. time l \<le> t) ls)"
proof (induction ls arbitrary: j)
  case Nil
  then show ?case by simp
next
  case (Cons a ls)
  show ?case
  proof (cases j)
    case 0
    with Cons.prems show ?thesis by simp
  next
    case (Suc j')
    from Cons.prems Suc have j': "time (ls ! j') \<le> t" "j' < length ls" by simp_all
    from Cons.prems(1) j'(2) have "time a \<le> time (ls ! j')" by auto
    with j'(1) have a: "time a \<le> t" by simp
    from Cons.prems(1) have "sorted (map time ls)" by simp
    with j' have "j' < length (takeWhile (\<lambda>l. time l \<le> t) ls)" by (simp add: Cons.IH)
    with a Suc show ?thesis by simp
  qed
qed

lemma takeWhile_nth_holds:
  "j < length (takeWhile P ls) \<Longrightarrow> P (ls ! j)"
  by (metis nth_mem set_takeWhileD takeWhile_nth)


subsection \<open>The sort and the order of the lines\<close>

lemma set_insertSorted: "set (insertSorted cmp x ys) = insert x (set ys)"
  by (induction ys) auto

lemma sorted_insertSorted:
  "sorted (map time ys) \<Longrightarrow> sorted (map time (insertSorted compareFn x ys))"
  by (induction ys) (auto simp: compareFn_def set_insertSorted)

lemma filter_insertSorted:
  "sorted (map time ys) \<Longrightarrow>
   filter (\<lambda>l. time l = k) (insertSorted compareFn x ys) =
   filter (\<lambda>l. time l = k) ys @ (if time x = k then [x] else [])"
proof (induction ys)
  case Nil
  then show ?case by simp
next
  case (Cons y ys)
  show ?case
  proof (cases "0 < compareFn y x")
    case False
    with Cons show ?thesis by simp
  next
    case True
    then have lt: "time x < time y" by (simp add: compareFn_def)
    with Cons.prems have "\<forall>l \<in> set (y # ys). time x < time l" by auto
    then have "time x = k \<Longrightarrow> filter (\<lambda>l. time l = k) (y # ys) = []"
      by (auto simp: filter_empty_conv)
    with True show ?thesis by auto
  qed
qed

lemma sorted_sortInto:
  "sorted (map time acc) \<Longrightarrow> sorted (map time (sortInto compareFn acc xs))"
  by (induction xs arbitrary: acc) (simp_all add: sorted_insertSorted)

lemma filter_sortInto:
  "sorted (map time acc) \<Longrightarrow>
   filter (\<lambda>l. time l = k) (sortInto compareFn acc xs) =
   filter (\<lambda>l. time l = k) acc @ filter (\<lambda>l. time l = k) xs"
  by (induction xs arbitrary: acc) (simp_all add: sorted_insertSorted filter_insertSorted)

lemma sorted_arraySort: "sorted (map time (arraySort compareFn xs))"
  by (simp add: arraySort_def sorted_sortInto)

lemma filter_arraySort:
  "filter (\<lambda>l. time l = k) (arraySort compareFn xs) = filter (\<lambda>l. time l = k) xs"
  by (simp add: arraySort_def filter_sortInto)

lemma lyrics_getCurrentLyric: "lyrics (snd (getCurrentLyric p t)) = lyrics p"
  by (simp add: getCurrentLyric_def Let_def)

lemma lyrics_parseLRC:
  "lrcContent \<noteq> [] \<Longrightarrow>
   lyrics (parseLRC p lrcContent) =
   arraySort compareFn
     (lyrics (parseLines (p\<lparr>lyrics := [], metadata := Map.empty, currentIndex := - 1\<rparr>)
        (split_newline lrcContent)))"
  by (simp add: parseLRC_def Let_def)

lemma sorted_parseLRC:
  "sorted (map time (lyrics p)) \<Longrightarrow> sorted (map time (lyrics (parseLRC p lrcContent)))"
  by (cases "lrcContent = []") (simp_all add: lyrics_parseLRC sorted_arraySort, simp add: parseLRC_def)

lemma sorted_loadFromURL:
  "sorted (map time (lyrics p)) \<Longrightarrow> sorted (map time (lyrics (snd (loadFromURL p outcome))))"
  by (auto simp: loadFromURL_def clear_def Let_def sorted_parseLRC split: fetchOutcome.splits option.splits)

lemma reachable_sorted: "reachable p \<Longrightarrow> sorted (map time (lyrics p))"
proof (induction rule: reachable.induct)
  case reach_new
  show ?case by (simp add: constructor_def)
next
  case (reach_parse p lrcContent)
  then show ?case by (simp add: sorted_parseLRC)
next
  case (reach_query p currentTime)
  then show ?case by (simp add: lyrics_getCurrentLyric)
next
  case (reach_clear p)
  show ?case by (simp add: clear_def)
next
  case (reach_load p outcome)
  then show ?case by (simp add: sorted_loadFromURL)
qed


subsection \<open>The query in closed form\<close>

lemma getCurrentLyric_eq:
  "getCurrentLyric p t =
     (if prefixLen (lyrics p) t = 0 then (None, p)
      else (Some \<lparr>time = time (lyrics p ! (prefixLen (lyrics p) t - 1)),
                  text' = text' (lyrics p ! (prefixLen (lyrics p) t - 1)),
                  index = int (prefixLen (lyrics p) t) - 1,
                  isNew = (int (prefixLen (lyrics p) t) - 1 \<noteq> currentIndex p)\<rparr>,
            p\<lparr>currentIndex := int (prefixLen (lyrics p) t) - 1\<rparr>))"
proof (cases "prefixLen (lyrics p) t = 0")
  case True
  then show ?thesis
    by (simp add: getCurrentLyric_def scanLyrics_start prefixLen_def)
next
  case False
  then have "lyrics p \<noteq> []" by (auto simp: prefixLen_def)
  moreover from False have "nat (int (prefixLen (lyrics p) t) - 1) = prefixLen (lyrics p) t - 1"
    by simp
  ultimately show ?thesis using False
    by (simp add: getCurrentLyric_def scanLyrics_start prefixLen_def [symmetric] Let_def)
qed

lemma prefixLen_le: "prefixLen ls t \<le> length ls"
  by (simp add: prefixLen_def length_takeWhile_le)

lemma prefixLen_holds: "j < prefixLen ls t \<Longrightarrow> time (ls ! j) \<le> t"
  unfolding prefixLen_def by (rule takeWhile_nth_holds)

lemma prefixLen_sorted:
  "sorted (map time ls) \<Longrightarrow> j < length ls \<Longrightarrow> time (ls ! j) \<le> t \<Longrightarrow> j < prefixLen ls t"
  unfolding prefixLen_def by (rule sorted_takeWhile_le)

subsection \<open>Rounding\<close>

lemma roundHalfEven_error: "\<bar>of_int (roundHalfEven q) - q\<bar> \<le> 1 / 2"
proof -
  define n where "n = \<lfloor>q\<rfloor>"
  define r where "r = q - of_int n"
  have r: "0 \<le> r" "r < 1" unfolding r_def n_def by linarith+
  have q: "q = of_int n + r" by (simp add: r_def)
  have "roundHalfEven q = n \<and> r \<le> 1 / 2 \<or> roundHalfEven q = n + 1 \<and> 1 / 2 \<le> r"
    unfolding roundHalfEven_def Let_def n_def [symmetric] r_def [symmetric]
    by (cases "r < 1 / 2"; cases "1 / 2 < r"; cases "even n") simp_all
  then show ?thesis
  proof
    assume "roundHalfEven q = n \<and> r \<le> 1 / 2"
    with r q show ?thesis by simp
  next
    assume "roundHalfEven q = n + 1 \<and> 1 / 2 \<le> r"
    with r q show ?thesis by simp
  qed
qed

lemma roundHalfEven_of_int: "roundHalfEven (of_int n) = n"
  by (simp add: roundHalfEven_def)

lemma bitlen_ge_one: "0 < n \<Longrightarrow> 1 \<le> bitlen n"
proof (rule ccontr)
  assume n: "0 < n" and "\<not> 1 \<le> bitlen n"
  then have "nat (bitlen n) = 0" by simp
  with bitlen_bounds [OF n] show False using n by simp
qed

lemma two_powi_nonneg: "0 \<le> k \<Longrightarrow> (2::rat) powi k = of_int (2 ^ nat k)"
  by (simp add: power_int_def)


lemma exponent_ge_one:
  assumes "1 \<le> \<bar>x\<bar>"
  shows "2 powi exponent x \<le> \<bar>x\<bar> \<and> \<bar>x\<bar> < 2 powi (exponent x + 1)"
proof -
  define a where "a = \<bar>x\<bar>"
  define n where "n = \<lfloor>a\<rfloor>"
  have n_pos: "0 < n" using assms by (simp add: n_def a_def)
  have e: "exponent x = bitlen n - 1"
    using assms by (simp add: exponent_def a_def n_def)
  from bitlen_bounds [OF n_pos]
  have b: "2 ^ nat (bitlen n - 1) \<le> n" "n < 2 ^ nat (bitlen n)" by simp_all
  have bl: "1 \<le> bitlen n" using n_pos by (rule bitlen_ge_one)
  have "(2::rat) powi (bitlen n - 1) = of_int (2 ^ nat (bitlen n - 1))"
    using bl by (simp add: two_powi_nonneg)
  also have "\<dots> \<le> of_int n" using b(1) by (simp only: of_int_le_iff)
  also have "\<dots> \<le> a" unfolding n_def by (rule of_int_floor_le)
  finally have lo: "2 powi (bitlen n - 1) \<le> a" .
  have "n + 1 \<le> 2 ^ nat (bitlen n)" using b(2) by simp
  then have "(of_int (n + 1) :: rat) \<le> of_int (2 ^ nat (bitlen n))"
    by (simp only: of_int_le_iff)
  moreover have "a < of_int (n + 1)" unfolding n_def by linarith
  moreover have "(of_int (2 ^ nat (bitlen n)) :: rat) = 2 powi (bitlen n)"
    using bl by (simp add: two_powi_nonneg)
  ultimately have "a < 2 powi (bitlen n)" by linarith
  with lo e show ?thesis by (simp add: a_def)
qed


lemma exponent_lt_one:
  assumes "x \<noteq> 0" "\<bar>x\<bar> < 1"
  shows "2 powi exponent x \<le> \<bar>x\<bar> \<and> \<bar>x\<bar> < 2 powi (exponent x + 1)"
proof -
  define a where "a = \<bar>x\<bar>"
  have a_pos: "0 < a" and a1: "a < 1" using assms by (simp_all add: a_def)
  define y where "y = 1 / a"
  have y1: "1 < y" using a_pos a1 by (simp add: y_def)
  define m where "m = \<lceil>y\<rceil> - 1"
  have my: "of_int m < y" "y \<le> of_int m + 1"
    unfolding m_def by linarith+
  have "1 < \<lceil>y\<rceil>" using y1 by linarith
  then have m_pos: "0 < m" by (simp add: m_def)
  have e: "exponent x = - bitlen m"
    using assms(2) by (simp add: exponent_def a_def [symmetric] m_def y_def)
  from bitlen_bounds [OF m_pos]
  have b: "2 ^ nat (bitlen m - 1) \<le> m" "m < 2 ^ nat (bitlen m)" by simp_all
  have bl: "1 \<le> bitlen m" using m_pos by (rule bitlen_ge_one)
  define P where "P = (2::rat) powi (bitlen m)"
  define Q where "Q = (2::rat) powi (bitlen m - 1)"
  have P_pos: "0 < P" and Q_pos: "0 < Q" by (simp_all add: P_def Q_def)
  have "m + 1 \<le> 2 ^ nat (bitlen m)" using b(2) by simp
  then have "(of_int (m + 1) :: rat) \<le> of_int (2 ^ nat (bitlen m))"
    by (simp only: of_int_le_iff)
  also have "(of_int (2 ^ nat (bitlen m)) :: rat) = P"
    using bl by (simp add: two_powi_nonneg P_def)
  finally have "y \<le> P" using my(2) by simp
  then have "1 \<le> P * a" using a_pos by (simp add: y_def field_simps)
  then have "1 / P \<le> a" using P_pos by (simp add: field_simps)
  then have lo: "2 powi (- bitlen m) \<le> a"
    by (simp add: P_def power_int_minus_divide)
  have "Q = of_int (2 ^ nat (bitlen m - 1))"
    using bl by (simp add: two_powi_nonneg Q_def)
  also have "\<dots> \<le> of_int m" using b(1) by (simp only: of_int_le_iff)
  finally have "Q < y" using my(1) by simp
  then have "a * Q < 1" using a_pos by (simp add: y_def field_simps)
  then have "a < 1 / Q" using Q_pos by (simp add: field_simps)
  moreover have "(2::rat) powi (- bitlen m + 1) = 1 / Q"
    using power_int_minus_divide [of "2::rat" "bitlen m - 1"] by (simp add: Q_def)
  ultimately have "a < 2 powi (- bitlen m + 1)" by simp
  with lo e show ?thesis by (simp add: a_def)
qed

lemma exponent_bounds:
  assumes "x \<noteq> 0"
  shows "2 powi exponent x \<le> \<bar>x\<bar>" and "\<bar>x\<bar> < 2 powi (exponent x + 1)"
  using assms exponent_ge_one [of x] exponent_lt_one [of x]
  by (cases "1 \<le> \<bar>x\<bar>"; simp)+


lemma exponent_less:
  assumes "x \<noteq> 0" "\<bar>x\<bar> < 2 powi k"
  shows "exponent x < k"
proof (rule ccontr)
  assume "\<not> exponent x < k"
  then have "(2::rat) powi k \<le> 2 powi exponent x"
    by (simp add: power_int_increasing)
  with exponent_bounds(1) [OF assms(1)] assms(2) show False by simp
qed

lemma exponent_ge:
  assumes "x \<noteq> 0" "2 powi k \<le> \<bar>x\<bar>"
  shows "k \<le> exponent x"
proof (rule ccontr)
  assume "\<not> k \<le> exponent x"
  then have "exponent x + 1 \<le> k" by simp
  then have "(2::rat) powi (exponent x + 1) \<le> 2 powi k"
    by (simp add: power_int_increasing)
  with exponent_bounds(2) [OF assms(1)] assms(2) show False by simp
qed

lemma fl_zero: "fl 0 = 0"
  by (simp add: fl_def)

lemma fl_error:
  assumes "x \<noteq> 0" "- 1022 \<le> exponent x"
  shows "\<bar>fl x - x\<bar> \<le> 2 powi (exponent x - 53)"
proof -
  define u where "u = (2::rat) powi (exponent x - 52)"
  have u_pos: "0 < u" by (simp add: u_def)
  have f: "fl x = of_int (roundHalfEven (x / u)) * u"
    using assms by (simp add: fl_def u_def max_def Let_def)
  have "fl x - x = (of_int (roundHalfEven (x / u)) - x / u) * u"
    using u_pos by (simp add: f field_simps)
  then have "\<bar>fl x - x\<bar> = \<bar>of_int (roundHalfEven (x / u)) - x / u\<bar> * u"
    using u_pos by (simp add: abs_mult)
  also have "\<dots> \<le> (1 / 2) * u"
    using roundHalfEven_error [of "x / u"] u_pos by (simp only: mult_right_mono less_imp_le)
  also have "(1 / 2) * u = 2 powi (exponent x - 53)"
    using power_int_add [of "2::rat" "exponent x - 53" 1] by (simp add: u_def)
  finally show ?thesis .
qed

lemma fl_exact:
  assumes "\<bar>k\<bar> < 2 ^ 53" "- 1074 \<le> j"
  shows "fl (of_int k * 2 powi j) = of_int k * 2 powi j"
proof (cases "k = 0")
  case True
  then show ?thesis by (simp add: fl_zero)
next
  case False
  define x where "x = (of_int k :: rat) * 2 powi j"
  have x0: "x \<noteq> 0" using False by (simp add: x_def)
  define E where "E = max (exponent x) (- 1022)"
  define u where "u = (2::rat) powi (E - 52)"
  have u_pos: "0 < u" by (simp add: u_def)
  have "(of_int \<bar>k\<bar> :: rat) < of_int (2 ^ 53)"
    using assms(1) by (simp only: of_int_less_iff)
  then have "\<bar>of_int k :: rat\<bar> < 2 powi 53" by simp
  then have "\<bar>x\<bar> < 2 powi 53 * 2 powi j"
    by (simp add: x_def abs_mult)
  then have "\<bar>x\<bar> < 2 powi (53 + j)" by (simp add: power_int_add)
  with x0 have "exponent x < 53 + j" by (rule exponent_less)
  with assms(2) have d: "0 \<le> j - (E - 52)" by (simp add: E_def)
  have "x / u = of_int k * 2 powi (j - (E - 52))"
    by (simp add: x_def u_def power_int_diff)
  also have "\<dots> = of_int (k * 2 ^ nat (j - (E - 52)))"
    using d by (simp add: two_powi_nonneg)
  finally have "roundHalfEven (x / u) = k * 2 ^ nat (j - (E - 52))"
    by (simp only: roundHalfEven_of_int)
  then have "of_int (roundHalfEven (x / u)) * u = of_int k * 2 powi (j - (E - 52)) * u"
    using d by (simp add: two_powi_nonneg)
  also have "\<dots> = x"
    using power_int_add [of "2::rat" "j - (E - 52)" "E - 52"] by (simp add: x_def u_def)
  finally have "fl x = x"
    using x0 by (simp add: fl_def E_def u_def Let_def)
  then show ?thesis by (simp add: x_def)
qed

lemma fl_of_nat: "n < 2 ^ 53 \<Longrightarrow> fl (of_nat n) = of_nat n"
  using fl_exact [of "int n" 0] by simp


lemma fdiv_centiseconds:
  assumes "C \<le> 99"
  shows "\<bar>fdiv (of_nat C) 100 - of_nat C / 100\<bar> \<le> 1 / 2 ^ 54"
    and "C \<noteq> 0 \<Longrightarrow> 1 / 2 ^ 7 < fdiv (of_nat C) 100"
    and "fdiv (of_nat C) 100 < 1"
    and "C = 0 \<Longrightarrow> fdiv (of_nat C) 100 = 0"
proof -
  define x where "x = (of_nat C :: rat) / 100"
  have zero: "fdiv (of_nat C) 100 = 0" if "C = 0"
    using that by (simp add: fdiv_def fl_zero)
  have pos: "\<bar>fl x - x\<bar> \<le> 1 / 2 ^ 54 \<and> 1 / 2 ^ 7 < fl x \<and> fl x < 1" if "C \<noteq> 0"
  proof -
    from that have "1 \<le> C" by simp
    then have "(of_nat 1 :: rat) \<le> of_nat C" by (simp only: of_nat_le_iff)
    then have "(1::rat) \<le> of_nat C" by simp
    then have lo: "1 / 100 \<le> x" by (simp add: x_def)
    from assms have "(of_nat C :: rat) \<le> of_nat 99" by (simp only: of_nat_le_iff)
    then have hi: "x \<le> 99 / 100" by (simp add: x_def)
    have x0: "x \<noteq> 0" using lo by auto
    have ax: "\<bar>x\<bar> = x" using lo by simp
    have "(2::rat) powi (- 7) \<le> \<bar>x\<bar>" using lo ax by (simp add: power_int_minus)
    with x0 have e_lo: "- 7 \<le> exponent x" by (rule exponent_ge)
    have "\<bar>x\<bar> < 2 powi 0" using hi ax by simp
    with x0 have e_hi: "exponent x < 0" by (rule exponent_less)
    from e_lo have "\<bar>fl x - x\<bar> \<le> 2 powi (exponent x - 53)"
      by (intro fl_error x0) simp
    also have "\<dots> \<le> 2 powi (- 54)"
      using e_hi by (intro power_int_increasing) simp_all
    also have "\<dots> = 1 / 2 ^ 54" by (simp add: power_int_minus_divide)
    finally have err: "\<bar>fl x - x\<bar> \<le> 1 / 2 ^ 54" .
    then have "x - 1 / 2 ^ 54 \<le> fl x" "fl x \<le> x + 1 / 2 ^ 54" by linarith+
    with lo hi have "1 / 2 ^ 7 < fl x" "fl x < 1" by simp_all
    with err show ?thesis by simp
  qed
  show "\<bar>fdiv (of_nat C) 100 - of_nat C / 100\<bar> \<le> 1 / 2 ^ 54"
    using zero pos by (cases "C = 0") (simp_all add: fdiv_def x_def)
  show "C \<noteq> 0 \<Longrightarrow> 1 / 2 ^ 7 < fdiv (of_nat C) 100"
    using pos by (simp add: fdiv_def x_def)
  show "fdiv (of_nat C) 100 < 1"
    using zero pos by (cases "C = 0") (simp_all add: fdiv_def x_def)
  show "C = 0 \<Longrightarrow> fdiv (of_nat C) 100 = 0" by (rule zero)
qed

lemma whole_seconds_exact:
  assumes "M \<le> 99" "S \<le> 99"
  shows "fadd (fmul (of_nat M) 60) (of_nat S) = of_nat (M * 60 + S)"
proof -
  have "M * 60 < 2 ^ 53" "M * 60 + S < 2 ^ 53" using assms by simp_all
  then have "fl (of_nat (M * 60)) = of_nat (M * 60)"
    "fl (of_nat (M * 60 + S)) = of_nat (M * 60 + S)"
    by (simp_all only: fl_of_nat)
  then show ?thesis by (simp add: fadd_def fmul_def)
qed

lemma time_tolerance:
  assumes "M \<le> 99" "S \<le> 99" "C \<le> 99"
  shows "\<bar>fadd (fadd (fmul (of_nat M) 60) (of_nat S)) (fdiv (of_nat C) 100)
          - (of_nat M * 60 + of_nat S + of_nat C / 100)\<bar> \<le> 1 / 2 ^ 40"
proof -
  define N where "N = M * 60 + S"
  define y where "y = fdiv (of_nat C) 100"
  define w where "w = (of_nat N :: rat) + y"
  have N: "fadd (fmul (of_nat M) 60) (of_nat S) = of_nat N"
    using assms by (simp add: whole_seconds_exact N_def)
  have yerr: "\<bar>y - of_nat C / 100\<bar> \<le> 1 / 2 ^ 54" and y1: "y < 1"
    using fdiv_centiseconds [OF assms(3)] by (simp_all add: y_def)
  have "N \<le> 6039" using assms by (simp add: N_def)
  then have "(of_nat N :: rat) \<le> of_nat 6039" by (simp only: of_nat_le_iff)
  then have N_hi: "(of_nat N :: rat) \<le> 6039" by simp
  have werr: "\<bar>fl w - w\<bar> \<le> 1 / 2 ^ 41"
  proof (cases "w = 0")
    case True
    then show ?thesis by (simp add: fl_zero)
  next
    case False
    have y_nonneg: "0 \<le> y" and y_big: "y \<noteq> 0 \<Longrightarrow> 1 / 2 ^ 7 < y"
      using fdiv_centiseconds(2,4) [OF assms(3)] by (cases "C = 0"; simp add: y_def)+
    have w_lo: "1 / 2 ^ 7 < w"
    proof (cases "N = 0")
      case True
      with False have "y \<noteq> 0" by (simp add: w_def)
      with y_big True show ?thesis by (simp add: w_def)
    next
      case N0: False
      then have "1 \<le> N" by simp
      then have "(of_nat 1 :: rat) \<le> of_nat N" by (simp only: of_nat_le_iff)
      then have "(1::rat) \<le> of_nat N" by simp
      with y_nonneg show ?thesis by (simp add: w_def)
    qed
    have w_hi: "w < 2 ^ 13" using N_hi y1 by (simp add: w_def)
    have aw: "\<bar>w\<bar> = w" using w_lo by simp
    have "(2::rat) powi (- 7) \<le> \<bar>w\<bar>" using w_lo aw by (simp add: power_int_minus_divide)
    with False have e_lo: "- 7 \<le> exponent w" by (rule exponent_ge)
    have "\<bar>w\<bar> < 2 powi 13" using w_hi aw by simp
    with False have e_hi: "exponent w < 13" by (rule exponent_less)
    from e_lo have "\<bar>fl w - w\<bar> \<le> 2 powi (exponent w - 53)"
      by (intro fl_error False) simp
    also have "\<dots> \<le> 2 powi (- 41)"
      using e_hi by (intro power_int_increasing) simp_all
    also have "\<dots> = 1 / 2 ^ 41" by (simp add: power_int_minus_divide)
    finally show ?thesis .
  qed
  have "fadd (fadd (fmul (of_nat M) 60) (of_nat S)) (fdiv (of_nat C) 100) = fl w"
    by (subst N) (simp add: fadd_def w_def y_def)
  moreover have "(of_nat M * 60 + of_nat S + of_nat C / 100 :: rat) = of_nat N + of_nat C / 100"
    by (simp add: N_def)
  moreover have "\<bar>fl w - (of_nat N + of_nat C / 100)\<bar> \<le> 1 / 2 ^ 40"
  proof -
    have "fl w - (of_nat N + of_nat C / 100) = (fl w - w) + (y - of_nat C / 100)"
      by (simp add: w_def)
    then have "\<bar>fl w - (of_nat N + of_nat C / 100)\<bar> \<le> \<bar>fl w - w\<bar> + \<bar>y - of_nat C / 100\<bar>"
      by (simp only: abs_triangle_ineq)
    also have "\<dots> \<le> 1 / 2 ^ 41 + 1 / 2 ^ 54"
      using werr yerr by (rule add_mono)
    also have "\<dots> \<le> (1 / 2 ^ 40 :: rat)" by simp
    finally show ?thesis .
  qed
  ultimately show ?thesis by simp
qed

lemma fl_numeral: "(numeral k :: nat) < 2 ^ 53 \<Longrightarrow> fl (numeral k) = numeral k"
  using fl_of_nat [of "numeral k"] by simp

lemma fl_one: "fl 1 = 1"
  using fl_of_nat [of 1] by simp

lemmas eval_defs = js_def parseLRC_def parseLine_def trim_def metadataMatch_def
  isWhiteSpace_def isLineTerminator_def isDigit_def isWordChar_def parseTimeToSeconds_def
  parseInt_def digitValue_def fadd_def fmul_def fdiv_def fl_zero fl_one fl_numeral
  arraySort_def compareFn_def constructor_def Let_def setProperty_def

subsection \<open>Matching and the loop over the lines\<close>

lemma digitValue_le: "isDigit c \<Longrightarrow> digitValue c \<le> 9"
proof -
  assume "isDigit c"
  then have "unat c \<le> 57" by (simp add: isDigit_def word_le_nat_alt)
  then show ?thesis unfolding digitValue_def by arith
qed

lemma parseInt_two_digits:
  "isDigit a \<Longrightarrow> isDigit b \<Longrightarrow> parseInt [a, b] = 10 * digitValue a + digitValue b"
  by (simp add: parseInt_def)

lemma matchTimeAt_Some:
  assumes "matchTimeAt s = Some (mi, se, ce, txt)"
  shows "\<exists>m1 m2 s1 s2 c1 c2.
           s = [0x5B, m1, m2, 0x3A, s1, s2, 0x2E, c1, c2, 0x5D] @ txt \<and>
           mi = [m1, m2] \<and> se = [s1, s2] \<and> ce = [c1, c2] \<and>
           isDigit m1 \<and> isDigit m2 \<and> isDigit s1 \<and> isDigit s2 \<and> isDigit c1 \<and> isDigit c2 \<and>
           list_all (\<lambda>ch. \<not> isLineTerminator ch) txt"
  using assms by (cases s rule: matchTimeAt.cases) (auto split: if_splits)

lemma timeMatches_Some:
  "timeMatches s = Some g \<Longrightarrow> \<exists>pre suf. s = pre @ suf \<and> matchTimeAt suf = Some g"
proof (induction s)
  case Nil
  then show ?case by simp
next
  case (Cons c cs)
  show ?case
  proof (cases "matchTimeAt (c # cs)")
    case None
    with Cons obtain pre suf where "cs = pre @ suf" "matchTimeAt suf = Some g" by auto
    then have "c # cs = (c # pre) @ suf \<and> matchTimeAt suf = Some g" by simp
    then show ?thesis by blast
  next
    case (Some a)
    with Cons.prems have "c # cs = [] @ (c # cs) \<and> matchTimeAt (c # cs) = Some g" by simp
    then show ?thesis by blast
  qed
qed

lemma metadataMatch_iff:
  "metadataMatch line = Some (key, val) \<longleftrightarrow>
     line = 0x5B # key @ 0x3A # val @ [0x5D] \<and>
     key \<noteq> [] \<and> list_all isWordChar key \<and>
     val \<noteq> [] \<and> list_all (\<lambda>ch. \<not> isLineTerminator ch) val"
proof
  assume m: "metadataMatch line = Some (key, val)"
  then obtain c rest where line: "line = c # rest" and c: "c = 0x5B"
    by (cases line) (auto simp: metadataMatch_def split: if_splits)
  from m line c obtain d rest2 where dw: "dropWhile isWordChar rest = d # rest2"
    by (cases "dropWhile isWordChar rest") (auto simp: metadataMatch_def)
  from m line c dw have k: "key = takeWhile isWordChar rest" "key \<noteq> []" "d = 0x3A" "rest2 \<noteq> []"
    and v: "val = butlast rest2" "last rest2 = 0x5D" "val \<noteq> []"
      "list_all (\<lambda>ch. \<not> isLineTerminator ch) val"
    by (auto simp: metadataMatch_def Let_def split: if_splits)
  have "rest = takeWhile isWordChar rest @ dropWhile isWordChar rest" by simp
  then have "rest = key @ 0x3A # rest2" using k dw by simp
  moreover have "rest2 = val @ [0x5D]" using k(4) v(1,2) by (metis append_butlast_last_id)
  moreover have "list_all isWordChar key"
    unfolding k(1) by (auto simp: list_all_iff dest: set_takeWhileD)
  ultimately show "line = 0x5B # key @ 0x3A # val @ [0x5D] \<and>
     key \<noteq> [] \<and> list_all isWordChar key \<and>
     val \<noteq> [] \<and> list_all (\<lambda>ch. \<not> isLineTerminator ch) val"
    using line c k(2) v(3,4) by simp
next
  assume a: "line = 0x5B # key @ 0x3A # val @ [0x5D] \<and>
     key \<noteq> [] \<and> list_all isWordChar key \<and>
     val \<noteq> [] \<and> list_all (\<lambda>ch. \<not> isLineTerminator ch) val"
  have colon: "\<not> isWordChar 0x3A" by (simp add: isWordChar_def isDigit_def)
  from a have w: "\<And>x. x \<in> set key \<Longrightarrow> isWordChar x" by (simp add: list_all_iff)
  have tw: "takeWhile isWordChar (key @ 0x3A # val @ [0x5D]) = key"
    using w colon by (simp add: takeWhile_append2)
  have dw: "dropWhile isWordChar (key @ 0x3A # val @ [0x5D]) = 0x3A # val @ [0x5D]"
    using w colon by (simp add: dropWhile_append2)
  from a show "metadataMatch line = Some (key, val)"
    by (simp add: metadataMatch_def tw dw)
qed

lemma bare_tag_matches_metadata:
  assumes "isDigit m1" "isDigit m2" "isDigit s1" "isDigit s2" "isDigit c1" "isDigit c2"
  shows "metadataMatch [0x5B, m1, m2, 0x3A, s1, s2, 0x2E, c1, c2, 0x5D] =
           Some ([m1, m2], [s1, s2, 0x2E, c1, c2])"
proof -
  have nl: "\<not> isLineTerminator c" if "isDigit c" for c
    using that by (auto simp: isDigit_def isLineTerminator_def)
  have wd: "isWordChar c" if "isDigit c" for c
    using that by (simp add: isWordChar_def)
  have "\<not> isLineTerminator 0x2E" by (simp add: isLineTerminator_def)
  with assms nl wd show ?thesis
    using metadataMatch_iff [of "[0x5B, m1, m2, 0x3A, s1, s2, 0x2E, c1, c2, 0x5D]"
        "[m1, m2]" "[s1, s2, 0x2E, c1, c2]"]
    by simp
qed

lemma timeMatches_None_iff:
  "timeMatches s = None \<longleftrightarrow> (\<forall>pre suf. s = pre @ suf \<longrightarrow> matchTimeAt suf = None)"
proof (induction s)
  case Nil
  show ?case by simp
next
  case (Cons c cs)
  have "(\<forall>pre suf. c # cs = pre @ suf \<longrightarrow> matchTimeAt suf = None) \<longleftrightarrow>
        matchTimeAt (c # cs) = None \<and> (\<forall>pre suf. cs = pre @ suf \<longrightarrow> matchTimeAt suf = None)"
    by (auto simp: Cons_eq_append_conv)
  with Cons show ?case by (auto split: option.splits)
qed

lemma parseTimeToSeconds_two_digits:
  assumes "isDigit m1" "isDigit m2" "isDigit s1" "isDigit s2" "isDigit c1" "isDigit c2"
  shows "\<bar>parseTimeToSeconds [m1, m2] [s1, s2] [c1, c2]
          - (of_nat (10 * digitValue m1 + digitValue m2) * 60
             + of_nat (10 * digitValue s1 + digitValue s2)
             + of_nat (10 * digitValue c1 + digitValue c2) / 100)\<bar> \<le> 1 / 2 ^ 40"
proof -
  have "10 * digitValue m1 + digitValue m2 \<le> 99" "10 * digitValue s1 + digitValue s2 \<le> 99"
    "10 * digitValue c1 + digitValue c2 \<le> 99"
    using assms [THEN digitValue_le] by simp_all
  then show ?thesis
    unfolding parseTimeToSeconds_def Let_def
    using assms by (simp only: parseInt_two_digits time_tolerance)
qed

lemma parseLine_timed:
  assumes "metadataMatch (trim line) = None"
    and "timeMatches (trim line) = Some (minutes, seconds, centiseconds, txt)"
  shows "parseLine p line =
           p\<lparr>lyrics := lyrics p @
              [\<lparr>time = parseTimeToSeconds minutes seconds centiseconds, text' = trim txt\<rparr>]\<rparr>"
proof -
  from assms(2) have "trim line \<noteq> []" by auto
  with assms show ?thesis by (simp add: parseLine_def Let_def)
qed

lemma parseLine_unmatched:
  assumes "metadataMatch (trim line) = None" and "timeMatches (trim line) = None"
  shows "parseLine p line = p"
  using assms by (simp add: parseLine_def Let_def)

lemma parseLines_append: "parseLines p (xs @ ys) = parseLines (parseLines p xs) ys"
  by (induction xs arbitrary: p) simp_all

lemma split_newline_not_Nil: "split_newline s \<noteq> []"
  by (induction s) (auto split: list.splits)

lemma currentIndex_parseLine: "currentIndex (parseLine p line) = currentIndex p"
  by (simp add: parseLine_def Let_def split: option.splits prod.splits)

lemma currentIndex_parseLines: "currentIndex (parseLines p ls) = currentIndex p"
  by (induction ls arbitrary: p) (simp_all add: currentIndex_parseLine)

lemma fl_half_numeral: "(numeral k :: int) < 2 ^ 53 \<Longrightarrow> fl (numeral k / 2) = numeral k / 2"
  using fl_exact [of "numeral k" "- 1"] by (simp add: power_int_minus_divide)

lemma fl_half: "fl (1 / 2) = 1 / 2"
  using fl_exact [of 1 "- 1"] by (simp add: power_int_minus_divide)

lemma split_newline_append:
  "split_newline (a @ 0x000A # b) = split_newline a @ split_newline b"
proof (induction a)
  case Nil
  show ?case by simp
next
  case (Cons c a)
  obtain x xs where "split_newline a = x # xs"
    using split_newline_not_Nil [of a] by (cases "split_newline a") auto
  with Cons show ?case by simp
qed

lemma split_newline_single: "0x000A \<notin> set line \<Longrightarrow> split_newline line = [line]"
  by (induction line) auto

lemma example_track:
  "parseLRC constructor (js ''[00:03.00]b'' @ 0x0A # js ''[00:01.00]a'') =
     \<lparr>lyrics = [\<lparr>time = 1, text' = js ''a''\<rparr>, \<lparr>time = 3, text' = js ''b''\<rparr>],
      metadata = Map.empty, currentIndex = - 1\<rparr>"
  by (simp add: eval_defs)

section \<open>The properties of the specification\<close>

text \<open>
  C1.  On every track an object can hold and for every query time \<open>t\<close>, the query
  returns nothing exactly when no line has a time at most \<open>t\<close>; otherwise it returns
  the line at the greatest index whose time is at most \<open>t\<close>, with that line's text and
  time and with that index.  So before the first line's time it returns nothing, and
  from the last line's time on it returns the last line.
\<close>

theorem getCurrentLyric_greatest_index:
  assumes "reachable p"
  shows "(fst (getCurrentLyric p t) = None \<longleftrightarrow>
            (\<forall>i < length (lyrics p). \<not> time (lyrics p ! i) \<le> t)) \<and>
         (\<forall>r. fst (getCurrentLyric p t) = Some r \<longrightarrow>
            (\<exists>i < length (lyrics p).
               index r = int i \<and> time (lyrics p ! i) \<le> t \<and>
               (\<forall>j < length (lyrics p). time (lyrics p ! j) \<le> t \<longrightarrow> j \<le> i) \<and>
               text' r = text' (lyrics p ! i) \<and> time r = time (lyrics p ! i))) \<and>
         (lyrics p \<noteq> [] \<and> t < time (hd (lyrics p)) \<longrightarrow> fst (getCurrentLyric p t) = None) \<and>
         (lyrics p \<noteq> [] \<and> time (last (lyrics p)) \<le> t \<longrightarrow>
            (\<exists>r. fst (getCurrentLyric p t) = Some r \<and>
                 index r = int (length (lyrics p)) - 1 \<and>
                 text' r = text' (last (lyrics p)) \<and> time r = time (last (lyrics p))))"
proof -
  define ls where "ls = lyrics p"
  define n where "n = prefixLen ls t"
  have srt: "sorted (map time ls)"
    using assms by (simp add: ls_def reachable_sorted)
  have n_le: "n \<le> length ls" by (simp add: n_def prefixLen_le)
  have below: "time (ls ! j) \<le> t" if "j < n" for j
    using that by (simp add: n_def prefixLen_holds)
  have above: "j < n" if "j < length ls" "time (ls ! j) \<le> t" for j
    using that srt by (simp add: n_def prefixLen_sorted)
  have res: "fst (getCurrentLyric p t) =
      (if n = 0 then None
       else Some \<lparr>time = time (ls ! (n - 1)), text' = text' (ls ! (n - 1)),
                  index = int n - 1, isNew = (int n - 1 \<noteq> currentIndex p)\<rparr>)"
    by (simp add: getCurrentLyric_eq n_def ls_def)
  have none: "fst (getCurrentLyric p t) = None \<longleftrightarrow> (\<forall>i < length ls. \<not> time (ls ! i) \<le> t)"
  proof (cases "n = 0")
    case True
    with above res show ?thesis by auto
  next
    case False
    then have "n - 1 < length ls" "time (ls ! (n - 1)) \<le> t"
      using n_le below [of "n - 1"] by simp_all
    with False res show ?thesis by auto
  qed
  have some: "\<exists>i < length ls. index r = int i \<and> time (ls ! i) \<le> t \<and>
               (\<forall>j < length ls. time (ls ! j) \<le> t \<longrightarrow> j \<le> i) \<and>
               text' r = text' (ls ! i) \<and> time r = time (ls ! i)"
    if r: "fst (getCurrentLyric p t) = Some r" for r
  proof -
    from r res have pos: "n \<noteq> 0" by (auto split: if_splits)
    with r res have rr: "index r = int n - 1" "text' r = text' (ls ! (n - 1))"
      "time r = time (ls ! (n - 1))" by auto
    have "n - 1 < length ls" using pos n_le by simp
    moreover have "index r = int (n - 1)" using pos rr by simp
    moreover have "time (ls ! (n - 1)) \<le> t" using pos below [of "n - 1"] by simp
    moreover have "\<forall>j < length ls. time (ls ! j) \<le> t \<longrightarrow> j \<le> n - 1"
      using above by fastforce
    ultimately show ?thesis using rr by blast
  qed
  have first: "fst (getCurrentLyric p t) = None" if "ls \<noteq> []" "t < time (hd ls)"
  proof -
    have "n = 0"
    proof (rule ccontr)
      assume "n \<noteq> 0"
      then have "time (ls ! 0) \<le> t" using below [of 0] by simp
      with that show False by (simp add: hd_conv_nth)
    qed
    with res show ?thesis by simp
  qed
  have final: "\<exists>r. fst (getCurrentLyric p t) = Some r \<and> index r = int (length ls) - 1 \<and>
                 text' r = text' (last ls) \<and> time r = time (last ls)"
    if "ls \<noteq> []" "time (last ls) \<le> t"
  proof -
    from that have "length ls - 1 < n"
      using above [of "length ls - 1"] by (simp add: last_conv_nth)
    with n_le that(1) have "n = length ls" by simp
    with that(1) res show ?thesis by (simp add: last_conv_nth)
  qed
  from none some first final show ?thesis
    unfolding ls_def by blast
qed

theorem getCurrentLyric_greatest_index_witness:
  "reachable (parseLRC constructor (js ''[00:03.00]b'' @ 0x0A # js ''[00:01.00]a'')) \<and>
   fst (getCurrentLyric (parseLRC constructor (js ''[00:03.00]b'' @ 0x0A # js ''[00:01.00]a'')) 2) =
     Some \<lparr>time = 1, text' = js ''a'', index = 0, isNew = True\<rparr>"
proof -
  have r: "reachable (parseLRC constructor (js ''[00:03.00]b'' @ 0x0A # js ''[00:01.00]a''))"
    by (intro reach_parse reach_new)
  have "fst (getCurrentLyric (parseLRC constructor (js ''[00:03.00]b'' @ 0x0A # js ''[00:01.00]a'')) 2) =
     Some \<lparr>time = 1, text' = js ''a'', index = 0, isNew = True\<rparr>"
    by (simp add: example_track getCurrentLyric_eq prefixLen_def)
  with r show ?thesis
    using getCurrentLyric_greatest_index [OF r, of 2] by simp
qed

text \<open>
  C2.  After \<^verbatim>\<open>parseLRC\<close> the lines of the track are in ascending order of time, and
  the sort is stable: for every time \<open>k\<close>, the lines with that time stand in the order
  in which the loop collected them from the input.  (On the empty string the method
  returns at its guard, and the track keeps the lines it had, which are in order.)
\<close>

theorem parseLRC_sorted_stable:
  assumes "reachable p"
  shows "sorted (map time (lyrics (parseLRC p lrcContent))) \<and>
         (lrcContent \<noteq> [] \<longrightarrow>
            (\<forall>k. filter (\<lambda>l. time l = k) (lyrics (parseLRC p lrcContent)) =
                 filter (\<lambda>l. time l = k)
                   (lyrics (parseLines (p\<lparr>lyrics := [], metadata := Map.empty, currentIndex := - 1\<rparr>)
                      (split_newline lrcContent)))))"
  using assms by (simp add: reachable_sorted sorted_parseLRC lyrics_parseLRC filter_arraySort)

theorem parseLRC_sorted_stable_witness:
  "reachable constructor \<and>
   lyrics (parseLRC constructor
       (js ''[00:01.00]x'' @ 0x0A # js ''[00:00.00]y'' @ 0x0A # js ''[00:01.00]z'')) =
     [\<lparr>time = 0, text' = js ''y''\<rparr>, \<lparr>time = 1, text' = js ''x''\<rparr>, \<lparr>time = 1, text' = js ''z''\<rparr>]"
proof -
  have "lyrics (parseLRC constructor
       (js ''[00:01.00]x'' @ 0x0A # js ''[00:00.00]y'' @ 0x0A # js ''[00:01.00]z'')) =
     [\<lparr>time = 0, text' = js ''y''\<rparr>, \<lparr>time = 1, text' = js ''x''\<rparr>, \<lparr>time = 1, text' = js ''z''\<rparr>]"
    by (simp add: eval_defs)
  with reach_new show ?thesis
    using parseLRC_sorted_stable [OF reach_new,
      of "js ''[00:01.00]x'' @ 0x0A # js ''[00:00.00]y'' @ 0x0A # js ''[00:01.00]z''"]
    by simp
qed

text \<open>
  C3.  The specification has a line that is just one timestamp tag, such as
  \<^verbatim>\<open>[00:02.00]\<close>, parsed as a timed line with empty text.  The code tries the metadata
  pattern first, and \<^verbatim>\<open>\w+\<close> accepts the digits: the line is stored as metadata
  under the key \<^verbatim>\<open>00\<close> and no lyric line is recorded, also with white space behind
  the tag; with a text behind the tag the line is recorded.
\<close>

theorem bare_timestamp_is_metadata:
  "lyrics (parseLRC constructor (js ''[00:02.00]'')) = [] \<and>
   metadata (parseLRC constructor (js ''[00:02.00]'')) (js ''00'') = Some (js ''02.00'') \<and>
   lyrics (parseLRC constructor (js ''[00:02.00]   '')) = [] \<and>
   lyrics (parseLRC constructor (js ''[00:02.00]x'')) = [\<lparr>time = 2, text' = js ''x''\<rparr>]"
  by (simp add: eval_defs)

text \<open>
  C4, as stated: a line that is neither a whole-line metadata tag nor a timestamp tag at
  its start followed by text is dropped.  The timestamp pattern is searched anywhere in
  the line, so \<^verbatim>\<open>x[00:02.00]Line\<close> is recorded.
\<close>

theorem unanchored_timestamp_counterexample:
  "metadataMatch (trim (js ''x[00:02.00]Line'')) = None \<and>
   matchTimeAt (trim (js ''x[00:02.00]Line'')) = None \<and>
   lyrics (parseLine constructor (js ''x[00:02.00]Line'')) = [\<lparr>time = 2, text' = js ''Line''\<rparr>] \<and>
   lyrics (parseLRC constructor (js ''x[00:02.00]Line'')) = [\<lparr>time = 2, text' = js ''Line''\<rparr>]"
  by (simp add: eval_defs)

text \<open>
  C4, amended.  A line whose trimmed form matches neither the metadata pattern (as a
  whole) nor the timestamp pattern (at any position) leaves the state of the parser as
  it is: the loop body changes nothing, the loop gives the same result with or without
  the line, and so does \<^verbatim>\<open>parseLRC\<close> on a text with or without it.  Parsing
  \<^verbatim>\<open>plain text\<close>, a line feed and \<^verbatim>\<open>[00:02.00]Line\<close> gives exactly one lyric line.
\<close>

theorem unmatched_line_dropped:
  "(metadataMatch (trim line) = None \<and> timeMatches (trim line) = None \<longrightarrow>
      parseLine p line = p \<and>
      parseLines p (before @ line # after) = parseLines p (before @ after) \<and>
      (0x000A \<notin> set line \<longrightarrow>
         parseLRC p (a @ 0x000A # line @ 0x000A # b) = parseLRC p (a @ 0x000A # b))) \<and>
   lyrics (parseLRC p (js ''plain text'' @ 0x000A # js ''[00:02.00]Line'')) =
     [\<lparr>time = 2, text' = js ''Line''\<rparr>]"
proof -
  have ex: "lyrics (parseLRC p (js ''plain text'' @ 0x000A # js ''[00:02.00]Line'')) =
     [\<lparr>time = 2, text' = js ''Line''\<rparr>]"
    by (simp add: eval_defs)
  {
    assume un: "metadataMatch (trim line) = None" "timeMatches (trim line) = None"
    then have drop: "parseLine q line = q" for q by (rule parseLine_unmatched)
    have lines: "parseLines q (xs @ line # ys) = parseLines q (xs @ ys)" for q xs ys
      by (simp add: parseLines_append drop)
    have "parseLRC p (a @ 0x000A # line @ 0x000A # b) = parseLRC p (a @ 0x000A # b)"
      if "0x000A \<notin> set line"
    proof -
      have "split_newline (a @ 0x000A # line @ 0x000A # b) =
              split_newline a @ line # split_newline b"
        using that by (simp add: split_newline_append split_newline_single)
      then show ?thesis
        by (simp add: parseLRC_def Let_def lines split_newline_append)
    qed
    with drop lines have "parseLine p line = p \<and>
      parseLines p (before @ line # after) = parseLines p (before @ after) \<and>
      (0x000A \<notin> set line \<longrightarrow>
         parseLRC p (a @ 0x000A # line @ 0x000A # b) = parseLRC p (a @ 0x000A # b))"
      by simp
  }
  with ex show ?thesis by blast
qed

theorem unmatched_line_dropped_witness:
  "metadataMatch (trim (js ''plain text'')) = None \<and>
   timeMatches (trim (js ''plain text'')) = None \<and>
   parseLine constructor (js ''plain text'') = constructor \<and>
   (0x000A :: jschar) \<notin> set (js ''plain text'') \<and>
   parseLRC constructor (js ''[ar:Test]'' @ 0x000A # js ''plain text'' @ 0x000A # js ''[00:02.00]Line'') =
   parseLRC constructor (js ''[ar:Test]'' @ 0x000A # js ''[00:02.00]Line'')"
  using unmatched_line_dropped [of "js ''plain text''" constructor "[]" "[]" "js ''[ar:Test]''" "js ''[00:02.00]Line''"]
  by (simp add: eval_defs)

text \<open>
  C5, as stated: after \<^verbatim>\<open>parseLRC\<close> on any string the cursor is \<open>-1\<close>.  On the empty
  string the guard returns before the reset: a cursor that a query has moved stays.
\<close>

theorem parseLRC_cursor_counterexample:
  "currentIndex (parseLRC (snd (getCurrentLyric (parseLRC constructor (js ''[00:01.00]a'')) 5)) [])
     \<noteq> - 1"
  by (simp add: eval_defs getCurrentLyric_eq prefixLen_def)

text \<open>
  C5, amended.  \<^verbatim>\<open>parseLRC\<close> returns on every string (each step of it is a total
  function, and none of them raises); after it the cursor is \<open>-1\<close> when the string is
  not empty, and the object is unchanged when the string is empty.
\<close>

theorem parseLRC_cursor:
  "(lrcContent \<noteq> [] \<longrightarrow> currentIndex (parseLRC p lrcContent) = - 1) \<and> parseLRC p [] = p"
  by (simp add: parseLRC_def Let_def currentIndex_parseLines)

theorem parseLRC_cursor_witness:
  "js ''[00:01.00]a'' \<noteq> [] \<and>
   currentIndex (parseLRC \<lparr>lyrics = [], metadata = Map.empty, currentIndex = 7\<rparr> (js ''[00:01.00]a'')) = - 1"
  using parseLRC_cursor [of "js ''[00:01.00]a''" "\<lparr>lyrics = [], metadata = Map.empty, currentIndex = 7\<rparr>"]
  by (simp add: js_def)

text \<open>
  C6.  A query that returns a line reports \<^verbatim>\<open>isNew\<close> exactly when the index differs
  from the stored cursor, and stores the index as the cursor; so in the next query
  \<^verbatim>\<open>isNew\<close> is false when it resolves to the same index and true when it resolves to
  another one.
\<close>

theorem getCurrentLyric_isNew:
  assumes "getCurrentLyric p t = (Some r, p')"
  shows "(isNew r \<longleftrightarrow> index r \<noteq> currentIndex p) \<and> currentIndex p' = index r \<and>
         (\<forall>t2 r2 p2. getCurrentLyric p' t2 = (Some r2, p2) \<longrightarrow>
            (isNew r2 \<longleftrightarrow> index r2 \<noteq> index r))"
proof -
  have step: "(isNew r \<longleftrightarrow> index r \<noteq> currentIndex p) \<and> currentIndex p' = index r"
    if "getCurrentLyric p t = (Some r, p')" for p t r p'
    using that by (auto simp: getCurrentLyric_eq split: if_splits)
  from step [OF assms] have first: "isNew r \<longleftrightarrow> index r \<noteq> currentIndex p"
    and cur: "currentIndex p' = index r" by simp_all
  have "isNew r2 \<longleftrightarrow> index r2 \<noteq> index r" if "getCurrentLyric p' t2 = (Some r2, p2)" for t2 r2 p2
    using step [OF that] cur by simp
  with first cur show ?thesis by blast
qed

theorem getCurrentLyric_isNew_witness:
  "getCurrentLyric
      \<lparr>lyrics = [\<lparr>time = 1, text' = js ''a''\<rparr>, \<lparr>time = 3, text' = js ''b''\<rparr>],
       metadata = Map.empty, currentIndex = - 1\<rparr> 2 =
     (Some \<lparr>time = 1, text' = js ''a'', index = 0, isNew = True\<rparr>,
      \<lparr>lyrics = [\<lparr>time = 1, text' = js ''a''\<rparr>, \<lparr>time = 3, text' = js ''b''\<rparr>],
       metadata = Map.empty, currentIndex = 0\<rparr>) \<and>
   fst (getCurrentLyric
      \<lparr>lyrics = [\<lparr>time = 1, text' = js ''a''\<rparr>, \<lparr>time = 3, text' = js ''b''\<rparr>],
       metadata = Map.empty, currentIndex = 0\<rparr> (5 / 2)) =
     Some \<lparr>time = 1, text' = js ''a'', index = 0, isNew = False\<rparr> \<and>
   fst (getCurrentLyric
      \<lparr>lyrics = [\<lparr>time = 1, text' = js ''a''\<rparr>, \<lparr>time = 3, text' = js ''b''\<rparr>],
       metadata = Map.empty, currentIndex = 0\<rparr> 4) =
     Some \<lparr>time = 3, text' = js ''b'', index = 1, isNew = True\<rparr>"
proof -
  have q: "getCurrentLyric
      \<lparr>lyrics = [\<lparr>time = 1, text' = js ''a''\<rparr>, \<lparr>time = 3, text' = js ''b''\<rparr>],
       metadata = Map.empty, currentIndex = - 1\<rparr> 2 =
     (Some \<lparr>time = 1, text' = js ''a'', index = 0, isNew = True\<rparr>,
      \<lparr>lyrics = [\<lparr>time = 1, text' = js ''a''\<rparr>, \<lparr>time = 3, text' = js ''b''\<rparr>],
       metadata = Map.empty, currentIndex = 0\<rparr>)"
    by (simp add: getCurrentLyric_eq prefixLen_def)
  from getCurrentLyric_isNew [OF q] q show ?thesis
    by (simp add: getCurrentLyric_eq prefixLen_def)
qed

text \<open>
  C7.  Whether the query returns a line, and that line's text, time and index, do not
  depend on the cursor: two runs that differ only in the cursor agree on all of them.
  So a query after any earlier query (a seek backward too) finds what a query on the
  fresh track finds.
\<close>

theorem getCurrentLyric_cursor_independent:
  "map_option matchOf (fst (getCurrentLyric (p\<lparr>currentIndex := c\<rparr>) t)) =
     map_option matchOf (fst (getCurrentLyric (p\<lparr>currentIndex := c'\<rparr>) t)) \<and>
   map_option matchOf (fst (getCurrentLyric (snd (getCurrentLyric p t0)) t)) =
     map_option matchOf (fst (getCurrentLyric p t))"
  by (simp add: getCurrentLyric_eq matchOf_def)

text \<open>
  C8.  For all two-digit groups the time computed for a timed line lies within
  \<open>2\<^sup>-\<^sup>4\<^sup>0\<close> of \<open>mm * 60 + ss + cc / 100\<close> taken exactly; and the time recorded for a
  line parsed as a timed line is the one computed from its three two-digit groups.
\<close>

theorem recorded_time_tolerance:
  "(isDigit m1 \<and> isDigit m2 \<and> isDigit s1 \<and> isDigit s2 \<and> isDigit c1 \<and> isDigit c2 \<longrightarrow>
      \<bar>parseTimeToSeconds [m1, m2] [s1, s2] [c1, c2]
        - (of_nat (10 * digitValue m1 + digitValue m2) * 60
           + of_nat (10 * digitValue s1 + digitValue s2)
           + of_nat (10 * digitValue c1 + digitValue c2) / 100)\<bar> \<le> 1 / 2 ^ 40) \<and>
   (metadataMatch (trim line) = None \<and>
    timeMatches (trim line) = Some (minutes, seconds, centiseconds, txt) \<longrightarrow>
      lyrics (parseLine p line) =
        lyrics p @ [\<lparr>time = parseTimeToSeconds minutes seconds centiseconds, text' = trim txt\<rparr>] \<and>
      (\<exists>d1 d2 d3 d4 d5 d6.
         minutes = [d1, d2] \<and> seconds = [d3, d4] \<and> centiseconds = [d5, d6] \<and>
         isDigit d1 \<and> isDigit d2 \<and> isDigit d3 \<and> isDigit d4 \<and> isDigit d5 \<and> isDigit d6))"
proof -
  {
    assume m: "metadataMatch (trim line) = None"
      and t: "timeMatches (trim line) = Some (minutes, seconds, centiseconds, txt)"
    from timeMatches_Some [OF t] obtain pre suf
      where "matchTimeAt suf = Some (minutes, seconds, centiseconds, txt)" by blast
    from matchTimeAt_Some [OF this]
    have "\<exists>d1 d2 d3 d4 d5 d6.
         minutes = [d1, d2] \<and> seconds = [d3, d4] \<and> centiseconds = [d5, d6] \<and>
         isDigit d1 \<and> isDigit d2 \<and> isDigit d3 \<and> isDigit d4 \<and> isDigit d5 \<and> isDigit d6"
      by blast
    moreover have "lyrics (parseLine p line) =
        lyrics p @ [\<lparr>time = parseTimeToSeconds minutes seconds centiseconds, text' = trim txt\<rparr>]"
      by (simp add: parseLine_timed [OF m t])
    ultimately have "lyrics (parseLine p line) =
        lyrics p @ [\<lparr>time = parseTimeToSeconds minutes seconds centiseconds, text' = trim txt\<rparr>] \<and>
      (\<exists>d1 d2 d3 d4 d5 d6.
         minutes = [d1, d2] \<and> seconds = [d3, d4] \<and> centiseconds = [d5, d6] \<and>
         isDigit d1 \<and> isDigit d2 \<and> isDigit d3 \<and> isDigit d4 \<and> isDigit d5 \<and> isDigit d6)"
      by simp
  }
  then show ?thesis
    using parseTimeToSeconds_two_digits [of m1 m2 s1 s2 c1 c2] by blast
qed

theorem recorded_time_tolerance_witness:
  "isDigit 0x30 \<and> isDigit 0x31 \<and> isDigit 0x32 \<and> isDigit 0x35 \<and>
   parseTimeToSeconds (js ''01'') (js ''02'') (js ''50'') = 125 / 2 \<and>
   metadataMatch (trim (js ''[01:02.50]Hi'')) = None \<and>
   timeMatches (trim (js ''[01:02.50]Hi'')) = Some (js ''01'', js ''02'', js ''50'', js ''Hi'') \<and>
   lyrics (parseLine constructor (js ''[01:02.50]Hi'')) = [\<lparr>time = 125 / 2, text' = js ''Hi''\<rparr>]"
  using recorded_time_tolerance [of "0x30" "0x31" "0x30" "0x32" "0x35" "0x30" "js ''[01:02.50]Hi''"
      "js ''01''" "js ''02''" "js ''50''" "js ''Hi''" constructor]
  by (simp add: eval_defs fl_half fl_half_numeral)

text \<open>
  C9.  When the fetch is rejected, when the response is not OK, and when the body cannot
  be read, \<^verbatim>\<open>loadFromURL\<close> resolves to \<^verbatim>\<open>false\<close> and leaves the track cleared (no
  lines, no metadata, cursor \<open>-1\<close>); every query on the cleared track returns nothing.
\<close>

theorem loadFromURL_failure:
  "loadFromURL p Rejected = (False, \<lparr>lyrics = [], metadata = Map.empty, currentIndex = - 1\<rparr>) \<and>
   loadFromURL p (Response False body) =
     (False, \<lparr>lyrics = [], metadata = Map.empty, currentIndex = - 1\<rparr>) \<and>
   loadFromURL p (Response True None) =
     (False, \<lparr>lyrics = [], metadata = Map.empty, currentIndex = - 1\<rparr>) \<and>
   getCurrentLyric \<lparr>lyrics = [], metadata = Map.empty, currentIndex = - 1\<rparr> t =
     (None, \<lparr>lyrics = [], metadata = Map.empty, currentIndex = - 1\<rparr>)"
  by (simp add: loadFromURL_def clear_def getCurrentLyric_def)

text \<open>
  C10.  A query leaves the lines and the metadata as they are; the state after it is the
  state before with the cursor set to the returned index, and it is the state before
  when nothing is returned.
\<close>

theorem getCurrentLyric_frame:
  "lyrics (snd (getCurrentLyric p t)) = lyrics p \<and>
   metadata (snd (getCurrentLyric p t)) = metadata p \<and>
   snd (getCurrentLyric p t) =
     (case fst (getCurrentLyric p t) of
        None \<Rightarrow> p
      | Some r \<Rightarrow> p\<lparr>currentIndex := index r\<rparr>)"
  by (simp add: getCurrentLyric_eq)

end
